theory Spec2Isabelle
  imports Complex_Main "HOL-Library.Sublist"
begin

section \<open>Python exceptions\<close>

text \<open>
  The notebook is Python. Every place where a cell can raise is a branch of the model:
  results are \<open>py_error + 'a\<close>, with \<open>Inl\<close> the exception.
\<close>

datatype py_error = IndexError | KeyError | ValueError

section \<open>One-column series\<close>

text \<open>
  \<open>DGS10_daily\<close>, \<open>DGS10_weekly\<close> and \<open>DGS10_monthly\<close> are one-column data frames:
  an index label and a float per row. A float that is not NaN is a finite number or
  one of the two infinities (\<open>read_csv\<close> reads \<open>inf\<close> and \<open>-inf\<close>); a cell is \<open>None\<close>
  where pandas holds NaN, the missing value. An infinity is not a missing value.
\<close>

datatype fval = Fin real | PInf | MInf

type_synonym cell = "fval option"

type_synonym 'i series = "('i \<times> cell) list"

text \<open>\<open>x.shift(1)\<close>: the index stays, the values move one row down, the first is NaN.\<close>

definition shift1 :: "'i series \<Rightarrow> 'i series" where
  "shift1 s = zip (map fst s) (None # map snd s)"

text \<open>
  Float subtraction. The difference of two infinities of the same sign is NaN, and so
  is every difference with a NaN operand. Rounding is left out: the difference of two
  finite floats is a float that is not NaN, so which rows hold NaN is not affected.
\<close>

fun fval_sub :: "fval \<Rightarrow> fval \<Rightarrow> cell" where
  "fval_sub (Fin a) (Fin b) = Some (Fin (a - b))"
| "fval_sub (Fin a) PInf = Some MInf"
| "fval_sub (Fin a) MInf = Some PInf"
| "fval_sub PInf (Fin b) = Some PInf"
| "fval_sub PInf MInf = Some PInf"
| "fval_sub PInf PInf = None"
| "fval_sub MInf (Fin b) = Some MInf"
| "fval_sub MInf PInf = Some MInf"
| "fval_sub MInf MInf = None"

fun cell_sub :: "cell \<Rightarrow> cell \<Rightarrow> cell" where
  "cell_sub (Some a) (Some b) = fval_sub a b"
| "cell_sub _ _ = None"

text \<open>
  \<open>a - b\<close> on two frames that carry the same index (here \<open>x.shift(1)\<close> and \<open>x\<close>):
  pandas subtracts row by row and keeps the index.
\<close>

definition frame_sub :: "'i series \<Rightarrow> 'i series \<Rightarrow> 'i series" where
  "frame_sub a b = map (\<lambda>((i, x), (j, y)). (i, cell_sub x y)) (zip a b)"

text \<open>\<open>.dropna()\<close>: the rows holding NaN are removed.\<close>

fun notna :: "cell \<Rightarrow> bool" where
  "notna None = False"
| "notna (Some _) = True"

definition dropna :: "'i series \<Rightarrow> 'i series" where
  "dropna s = filter (\<lambda>(i, x). notna x) s"

text \<open>
  The differenced series of the notebook, the same expression for the three periodicities:
  \<^verbatim>\<open>diff_DGS10_daily = (DGS10_daily.shift(1)-DGS10_daily).dropna()\<close>
\<close>

definition diff_DGS10 :: "'i series \<Rightarrow> 'i series" where
  "diff_DGS10 x = dropna (frame_sub (shift1 x) x)"

text \<open>
  The first difference as the notebook's text defines it (the operator \<open>1 - B\<close>, and the
  models \<open>X_t = c + X_{t-1} + Z_t\<close> it concludes with): \<open>x_t - x_{t-1}\<close> at every position
  \<open>t \<ge> 1\<close>, the undefined value at \<open>t = 0\<close> dropped.
\<close>

definition first_difference :: "'i series \<Rightarrow> 'i series" where
  "first_difference x =
     map (\<lambda>t. (fst (x ! t), cell_sub (snd (x ! t)) (snd (x ! (t - 1))))) [1..<length x]"

definition no_missing :: "'i series \<Rightarrow> bool" where
  "no_missing x = list_all (\<lambda>(i, v). notna v) x"

text \<open>A series of finite numbers: no missing value and no infinity.\<close>

fun finite_cell :: "cell \<Rightarrow> bool" where
  "finite_cell (Some (Fin _)) = True"
| "finite_cell _ = False"

definition all_finite :: "'i series \<Rightarrow> bool" where
  "all_finite x = list_all (\<lambda>(i, v). finite_cell v) x"

section \<open>The loaded table and its filter\<close>



fun column_pos :: "string \<Rightarrow> string list \<Rightarrow> nat option" where
  "column_pos c [] = None"
| "column_pos c (x # xs) = (if x = c then Some 0 else map_option Suc (column_pos c xs))"





section \<open>Resampling to open-high-low-close bars\<close>

text \<open>
  A timestamp is a day, counted from 1970-01-01. The rule \<open>how\<close> of
  \<open>data.resample(how)\<close> is \<open>'W'\<close> or \<open>'M'\<close> in the notebook; pandas assigns each day the
  week ending on its Sunday, or its calendar month. \<open>week_of\<close> and \<open>month_of\<close> number
  these periods consecutively, and a row of the resampled frame is labelled by the
  number of its period. Nothing proved below depends on how the periods are cut. The cells of \<open>DGS10_daily\<close> are not missing (the rows without
  \<open>DGS10\<close> were dropped before), so an observation is a value of a linear order.
\<close>

datatype how = W | M

definition week_of :: "int \<Rightarrow> int" where
  "week_of d = (d + 3) div 7"

definition month_of :: "int \<Rightarrow> int" where
  "month_of d =
     (let z = d + 719468;
          era = z div 146097;
          doe = z mod 146097;
          yoe = (doe - doe div 1460 + doe div 36524 - doe div 146096) div 365;
          doy = doe - (365 * yoe + yoe div 4 - yoe div 100);
          mp = (5 * doy + 2) div 153
      in 12 * (yoe + era * 400) + mp)"

definition period_of :: "how \<Rightarrow> int \<Rightarrow> int" where
  "period_of h d = (case h of W \<Rightarrow> week_of d | M \<Rightarrow> month_of d)"

text \<open>
  The observations of period \<open>k\<close>, in the order of their timestamps (pandas sorts the
  index, stably, before it cuts the bins).
\<close>

definition sub_period :: "how \<Rightarrow> int \<Rightarrow> (int \<times> 'a) list \<Rightarrow> 'a list" where
  "sub_period h k data = map snd (filter (\<lambda>(d, v). period_of h d = k) (sort_key fst data))"

text \<open>
  \<open>data.resample(how)\<close>: one group per period from the first observation's to the last
  one's, the periods without observation included.
\<close>

definition resample :: "how \<Rightarrow> (int \<times> 'a) list \<Rightarrow> (int \<times> 'a list) list" where
  "resample h data =
     (if data = [] then []
      else let ks = map (\<lambda>(d, v). period_of h d) data
           in map (\<lambda>k. (k, sub_period h k data)) [Min (set ks)..Max (set ks)])"

text \<open>\<open>.apply(f)\<close>: \<open>f\<close> on every group in turn; an exception of \<open>f\<close> ends the call.\<close>

fun apply_agg :: "('a list \<Rightarrow> py_error + 'b) \<Rightarrow> (int \<times> 'a list) list \<Rightarrow> py_error + (int \<times> 'b) list" where
  "apply_agg f [] = Inr []"
| "apply_agg f ((k, xs) # gs) =
     (case f xs of
        Inl e \<Rightarrow> Inl e
      | Inr v \<Rightarrow> (case apply_agg f gs of Inl e \<Rightarrow> Inl e | Inr vs \<Rightarrow> Inr ((k, v) # vs)))"

text \<open>
  The four aggregations of the dictionary \<open>ohlc\<close>:
  \<^verbatim>\<open>{'open': lambda x: x[0], 'high': max, 'low': min, 'close': lambda x: x[-1]}\<close>
  \<open>x[0]\<close> and \<open>x[-1]\<close> raise IndexError on a group without observation. \<open>'open'\<close> is the
  first key of the loop, so \<open>max\<close> and \<open>min\<close> only ever see groups that hold an
  observation; their branch for the empty group is Python's ValueError.
\<close>

definition ohlc_open :: "'a list \<Rightarrow> py_error + 'a" where
  "ohlc_open x = (case x of [] \<Rightarrow> Inl IndexError | v # _ \<Rightarrow> Inr v)"

definition ohlc_high :: "('a::linorder) list \<Rightarrow> py_error + 'a" where
  "ohlc_high x = (case x of [] \<Rightarrow> Inl ValueError | v # vs \<Rightarrow> Inr (fold max vs v))"

definition ohlc_low :: "('a::linorder) list \<Rightarrow> py_error + 'a" where
  "ohlc_low x = (case x of [] \<Rightarrow> Inl ValueError | v # vs \<Rightarrow> Inr (fold min vs v))"

definition ohlc_close :: "'a list \<Rightarrow> py_error + 'a" where
  "ohlc_close x = (if x = [] then Inl IndexError else Inr (last x))"

record 'a bar =
  opn :: 'a
  high :: 'a
  low :: 'a
  close :: 'a

text \<open>
  \<open>resample_plot(data, how)\<close>: the four columns are computed one after the other, in the
  order of the dictionary's keys, and share the index of the resampling. The candlestick
  figure it shows has no part in the returned frame. The column \<open>open\<close> is the field
  \<open>opn\<close>.
\<close>

definition resample_plot :: "(int \<times> ('a::linorder)) list \<Rightarrow> how \<Rightarrow> py_error + (int \<times> 'a bar) list" where
  "resample_plot data h =
     (let g = resample h data in
      case apply_agg ohlc_open g of Inl e \<Rightarrow> Inl e | Inr os \<Rightarrow>
      (case apply_agg ohlc_high g of Inl e \<Rightarrow> Inl e | Inr hs \<Rightarrow>
      (case apply_agg ohlc_low g of Inl e \<Rightarrow> Inl e | Inr ls \<Rightarrow>
      (case apply_agg ohlc_close g of Inl e \<Rightarrow> Inl e | Inr cs \<Rightarrow>
         Inr (map (\<lambda>((k, vo), (_, vh), (_, vl), (_, vc)).
                     (k, \<lparr>opn = vo, high = vh, low = vl, close = vc\<rparr>))
                (zip os (zip hs (zip ls cs))))))))"




section \<open>The search for the order of the autoregression\<close>

text \<open>
  The two search cells are the same loop, on the monthly and on the weekly differenced
  series:
  \<^verbatim>\<open>
  AIC = []
  AR_model = []
  for param in p:                      # p = range(0, 25)
      try:
          model = AutoReg(series.values, param, old_names=False)
          results = model.fit()
          print('AR({}) - AIC:{}'.format(param, results.aic), end='\r')
          AIC.append(results.aic)
          AR_model.append([param])
      except:
          continue
  \<close>
  The library's part is the parameter \<open>fit\<close>: \<open>fit param\<close> is \<open>Some\<close> of the value of
  \<open>results.aic\<close> when the model of order \<open>param\<close> is built and fitted, and \<open>None\<close> when
  that raises. The state of the loop is the two lists.
\<close>

record 'a search =
  AIC :: "'a list"
  AR_model :: "nat list list"

definition try_order :: "(nat \<Rightarrow> 'a option) \<Rightarrow> nat \<Rightarrow> 'a search \<Rightarrow> 'a search" where
  "try_order fit param st =
     (case fit param of
        None \<Rightarrow> st
      | Some a \<Rightarrow> st\<lparr>AIC := AIC st @ [a], AR_model := AR_model st @ [[param]]\<rparr>)"

text \<open>\<^verbatim>\<open>p = range(0, 25)\<close>\<close>

definition p_range :: "nat list" where
  "p_range = [0..<25]"

definition grid_search :: "(nat \<Rightarrow> 'a option) \<Rightarrow> 'a search" where
  "grid_search fit = fold (try_order fit) p_range \<lparr>AIC = [], AR_model = []\<rparr>"

text \<open>Python's \<open>min\<close>, \<open>list.index\<close> and indexing, with their exceptions.\<close>

definition py_min :: "('a::linorder) list \<Rightarrow> py_error + 'a" where
  "py_min xs =
     (case xs of
        [] \<Rightarrow> Inl ValueError
      | x # ys \<Rightarrow> Inr (fold (\<lambda>y m. if y < m then y else m) ys x))"

fun py_index :: "'a list \<Rightarrow> 'a \<Rightarrow> py_error + nat" where
  "py_index [] v = Inl ValueError"
| "py_index (x # xs) v =
     (if x = v then Inr 0
      else (case py_index xs v of Inl e \<Rightarrow> Inl e | Inr i \<Rightarrow> Inr (Suc i)))"

definition py_getitem :: "'a list \<Rightarrow> nat \<Rightarrow> py_error + 'a" where
  "py_getitem xs i = (if i < length xs then Inr (xs ! i) else Inl IndexError)"

text \<open>
  The cell after the loop prints two values:
  \<^verbatim>\<open>min(AIC)\<close> and \<^verbatim>\<open>AR_model[AIC.index(min(AIC))][0]\<close>
\<close>

definition smallest_AIC :: "('a::linorder) search \<Rightarrow> py_error + ('a \<times> nat)" where
  "smallest_AIC st =
     (case py_min (AIC st) of Inl e \<Rightarrow> Inl e | Inr m \<Rightarrow>
     (case py_index (AIC st) m of Inl e \<Rightarrow> Inl e | Inr i \<Rightarrow>
     (case py_getitem (AR_model st) i of Inl e \<Rightarrow> Inl e | Inr entry \<Rightarrow>
     (case py_getitem entry 0 of Inl e \<Rightarrow> Inl e | Inr order \<Rightarrow> Inr (m, order)))))"

text \<open>
  The cells that fit "this model" name the order by a literal:
  \<^verbatim>\<open>model = AutoReg(diff_DGS10_monthly.values, 0, old_names=False)\<close> and
  \<^verbatim>\<open>model = AutoReg(diff_DGS10_weekly.values, 2, old_names=False)\<close>
\<close>

definition monthly_fit_order :: nat where
  "monthly_fit_order = 0"

definition weekly_fit_order :: nat where
  "weekly_fit_order = 2"

section \<open>The characteristic polynomial of the weekly AR(2) model\<close>

text \<open>
  The cell calls \<^verbatim>\<open>np.polynomial.polynomial.polyroots((1,-0.1,0.04))\<close>; the
  coefficients are in the order of increasing degree.
\<close>

definition polyroots_arg :: "real list" where
  "polyroots_arg = [1, - 0.1, 0.04]"

text \<open>
  The notebook's text before that cell: the polynomial is
  \<open>\<phi>(z) = 1 - \<phi>\<^sub>1 z - \<phi>\<^sub>2 z\<^sup>2\<close>, and the estimates are \<open>\<phi>\<^sub>1 = -0.1\<close> and \<open>\<phi>\<^sub>2 = 0.04\<close>.
\<close>

definition characteristic_coeffs :: "real \<Rightarrow> real \<Rightarrow> real list" where
  "characteristic_coeffs phi1 phi2 = [1, - phi1, - phi2]"

definition phi1_hat :: real where
  "phi1_hat = - 0.1"

definition phi2_hat :: real where
  "phi2_hat = 0.04"

text \<open>The value of the polynomial with coefficients \<open>cs\<close> (increasing degree) at \<open>z\<close>.\<close>

fun polyval :: "real list \<Rightarrow> real \<Rightarrow> real" where
  "polyval [] z = 0"
| "polyval (c # cs) z = c + z * polyval cs z"

section \<open>The unit-root tests\<close>







section \<open>Notions used to state the properties\<close>

text \<open>The candidate orders whose fit succeeded, in the order of the loop.\<close>

definition fitted :: "(nat \<Rightarrow> 'a option) \<Rightarrow> nat list \<Rightarrow> nat list" where
  "fitted fit ps = filter (\<lambda>p. fit p \<noteq> None) ps"

text \<open>
  An open-high-low-close bar of a list of observations that is not empty: the first,
  the largest, the smallest and the last of them.
\<close>


definition bar_of :: "('a::linorder) list \<Rightarrow> 'a bar \<Rightarrow> bool" where
  "bar_of xs b \<longleftrightarrow> xs \<noteq> [] \<and> opn b = hd xs \<and> high b = Max (set xs)
     \<and> low b = Min (set xs) \<and> close b = last xs"

section \<open>Concrete inputs\<close>

text \<open>
  A few rows of a daily, a weekly and a monthly series, labelled by dates as a CSV
  spells them, and a daily series labelled by days counted from 1970-01-01
  (2 January 1962, a Tuesday, is day \<open>-2921\<close>): four observations in one week and
  three in the next.
\<close>

definition daily_rows :: "string series" where
  "daily_rows =
     [(''1962-01-02'', Some (Fin 4.06)), (''1962-01-03'', Some (Fin 4.03)),
      (''1962-01-04'', Some (Fin 3.99))]"



text \<open>A series without missing value that holds the infinity twice.\<close>

definition inf_rows :: "string series" where
  "inf_rows =
     [(''1962-01-02'', Some PInf), (''1962-01-03'', Some PInf), (''1962-01-04'', Some (Fin 1))]"

definition daily_days :: "(int \<times> real) list" where
  "daily_days =
     [(- 2921, 4.06), (- 2920, 4.03), (- 2919, 3.99), (- 2918, 4.02),
      (- 2915, 4.03), (- 2914, 4.05), (- 2913, 4.07)]"



text \<open>
  An outcome of a search: the fit raises from order 20 on, and order 1 has the smallest
  criterion.
\<close>

definition fit_ar1 :: "nat \<Rightarrow> real option" where
  "fit_ar1 p = (if 20 \<le> p then None else if p = 1 then Some 0 else Some 1)"


section \<open>The differenced series\<close>

lemma lagged_Cons:
  "frame_sub (zip (map fst ((i, v) # s)) (c # map snd ((i, v) # s))) ((i, v) # s)
     = (i, cell_sub c v) # frame_sub (zip (map fst s) (v # map snd s)) s"
  by (simp add: frame_sub_def)

lemma finite_cell_Fin: "finite_cell v \<Longrightarrow> \<exists>r. v = Some (Fin r)"
  by (cases v rule: finite_cell.cases) simp_all

lemma lagged_all_finite:
  "all_finite s \<Longrightarrow>
   dropna (frame_sub (zip (map fst s) (Some (Fin c) # map snd s)) s)
     = frame_sub (zip (map fst s) (Some (Fin c) # map snd s)) s"
proof (induction s arbitrary: c)
  case Nil
  then show ?case by (simp add: frame_sub_def dropna_def)
next
  case (Cons a s)
  obtain i v where a: "a = (i, v)" by (cases a)
  from Cons.prems a have fv: "finite_cell v" and nm: "all_finite s"
    by (simp_all add: all_finite_def)
  from finite_cell_Fin [OF fv] obtain r where v: "v = Some (Fin r)" ..
  have "dropna (frame_sub (zip (map fst s) (Some (Fin r) # map snd s)) s)
     = frame_sub (zip (map fst s) (Some (Fin r) # map snd s)) s"
    using Cons.IH [OF nm] .
  then show ?case
    unfolding a v lagged_Cons by (simp add: dropna_def)
qed

lemma lagged_length:
  "length (frame_sub (zip (map fst s) (c # map snd s)) s) = length s"
  by (simp add: frame_sub_def)

lemma lagged_index:
  "map fst (frame_sub (zip (map fst s) (c # map snd s)) s) = map fst s"
proof (induction s arbitrary: c)
  case Nil
  then show ?case by (simp add: frame_sub_def)
next
  case (Cons a s)
  obtain i v where a: "a = (i, v)" by (cases a)
  show ?case unfolding a lagged_Cons using Cons.IH by simp
qed

lemma diff_DGS10_Cons:
  assumes "all_finite ((i, Some (Fin r)) # s)"
  shows "diff_DGS10 ((i, Some (Fin r)) # s)
     = frame_sub (zip (map fst s) (Some (Fin r) # map snd s)) s"
proof -
  from assms have nm: "all_finite s" by (simp add: all_finite_def)
  have "diff_DGS10 ((i, Some (Fin r)) # s)
      = dropna ((i, None) # frame_sub (zip (map fst s) (Some (Fin r) # map snd s)) s)"
    unfolding diff_DGS10_def shift1_def lagged_Cons by simp
  also have "\<dots> = dropna (frame_sub (zip (map fst s) (Some (Fin r) # map snd s)) s)"
    by (simp add: dropna_def)
  finally show ?thesis by (simp add: lagged_all_finite [OF nm])
qed

lemma lagged_nth:
  "k < length s \<Longrightarrow>
   frame_sub (zip (map fst s) (c # map snd s)) s ! k
     = (fst (s ! k), cell_sub ((c # map snd s) ! k) (snd (s ! k)))"
  by (simp add: frame_sub_def split: prod.splits)

text \<open>
  What the expression computes on a series of finite numbers: at every position
  \<open>t \<ge> 1\<close> the value is \<open>x_{t-1} - x_t\<close>, the earlier observation minus the later one.
\<close>

lemma diff_DGS10_positions:
  assumes "all_finite x"
  shows "diff_DGS10 x =
     map (\<lambda>t. (fst (x ! t), cell_sub (snd (x ! (t - 1))) (snd (x ! t)))) [1..<length x]"
proof (cases x)
  case Nil
  then show ?thesis by (simp add: diff_DGS10_def shift1_def frame_sub_def dropna_def)
next
  case (Cons a s)
  obtain i v where a: "a = (i, v)" by (cases a)
  from assms Cons a have "finite_cell v" by (simp add: all_finite_def)
  from finite_cell_Fin [OF this] obtain r where v: "v = Some (Fin r)" ..
  have x: "x = (i, Some (Fin r)) # s" using Cons a v by simp
  have d: "diff_DGS10 x = frame_sub (zip (map fst s) (Some (Fin r) # map snd s)) s"
    using assms unfolding x by (rule diff_DGS10_Cons)
  have len: "length (diff_DGS10 x) = length s"
    by (simp only: d lagged_length)
  have lx: "length x = Suc (length s)" by (simp add: x)
  show ?thesis
  proof (rule nth_equalityI)
    show "length (diff_DGS10 x) = length (map (\<lambda>t. (fst (x ! t), cell_sub (snd (x ! (t - 1))) (snd (x ! t)))) [1..<length x])"
      unfolding len lx length_map length_upt by simp
  next
    fix k assume "k < length (diff_DGS10 x)"
    then have k: "k < length s" by (simp only: len)
    have "diff_DGS10 x ! k = (fst (s ! k), cell_sub ((Some (Fin r) # map snd s) ! k) (snd (s ! k)))"
      by (simp only: d lagged_nth [OF k])
    moreover have "(Some (Fin r) # map snd s) ! k = snd (x ! k)"
      using k by (cases k) (simp_all add: x)
    moreover have "[1..<length x] ! k = Suc k"
      using k nth_upt [of 1 k "length x"] by (simp add: lx del: upt_Suc)
    moreover have "s ! k = x ! Suc k" by (simp add: x)
    ultimately show "diff_DGS10 x ! k = map (\<lambda>t. (fst (x ! t), cell_sub (snd (x ! (t - 1))) (snd (x ! t)))) [1..<length x] ! k"
      using k by (simp add: lx del: upt_Suc)
  qed
qed

text \<open>
  C1. The claim: the differenced series holds \<open>x_t - x_{t-1}\<close> at every position
  \<open>t \<ge> 1\<close>. On a daily series of three rows the notebook's expression
  yields \<open>0.03\<close> and \<open>0.04\<close>, the earlier value minus the later one, where the first
  difference is \<open>-0.03\<close> and \<open>-0.04\<close>: the two operands of the subtraction are swapped.
\<close>

theorem diff_DGS10_swapped_operands:
  "diff_DGS10 daily_rows
       = [(''1962-01-03'', Some (Fin 0.03)), (''1962-01-04'', Some (Fin 0.04))]
   \<and> first_difference daily_rows
       = [(''1962-01-03'', Some (Fin (- 0.03))), (''1962-01-04'', Some (Fin (- 0.04)))]
   \<and> diff_DGS10 daily_rows \<noteq> first_difference daily_rows"
  by (simp add: diff_DGS10_def shift1_def frame_sub_def dropna_def first_difference_def
      daily_rows_def upt_rec_numeral)

text \<open>
  C9, as the claim states it, fails: a series can hold an infinity without holding a
  missing value. On a series of three rows whose first two values are the infinity,
  the difference of the two is NaN, its row is dropped, and one row is left of the
  \<open>n - 1 = 2\<close>.
\<close>

theorem diff_DGS10_infinity_counterexample:
  "no_missing inf_rows \<and> length inf_rows = 3
   \<and> diff_DGS10 inf_rows = [(''1962-01-04'', Some PInf)]
   \<and> length (diff_DGS10 inf_rows) \<noteq> length inf_rows - 1"
  by (simp add: no_missing_def diff_DGS10_def shift1_def frame_sub_def dropna_def inf_rows_def)

text \<open>
  C9, amended. On a series of length \<open>n \<ge> 1\<close> whose values are all finite numbers (no
  missing value and no infinity), the differencing step yields a series of length
  \<open>n - 1\<close>, and its index is the input's index without its first label.
\<close>

theorem diff_DGS10_length_index:
  assumes "all_finite x" and "1 \<le> length x"
  shows "length (diff_DGS10 x) = length x - 1 \<and> map fst (diff_DGS10 x) = tl (map fst x)"
proof (cases x)
  case Nil
  with assms(2) show ?thesis by simp
next
  case (Cons a s)
  obtain i v where a: "a = (i, v)" by (cases a)
  from assms(1) Cons a have "finite_cell v" by (simp add: all_finite_def)
  from finite_cell_Fin [OF this] obtain r where v: "v = Some (Fin r)" ..
  have x: "x = (i, Some (Fin r)) # s" using Cons a v by simp
  have d: "diff_DGS10 x = frame_sub (zip (map fst s) (Some (Fin r) # map snd s)) s"
    using assms(1) unfolding x by (rule diff_DGS10_Cons)
  have "length (diff_DGS10 x) = length s" by (simp only: d lagged_length)
  moreover have "map fst (diff_DGS10 x) = map fst s" by (simp only: d lagged_index)
  ultimately show ?thesis by (simp add: x)
qed

theorem diff_DGS10_length_index_witness:
  "all_finite daily_rows \<and> 1 \<le> length daily_rows
   \<and> length (diff_DGS10 daily_rows) = 2
   \<and> map fst (diff_DGS10 daily_rows) = [''1962-01-03'', ''1962-01-04'']"
proof -
  have h1: "all_finite daily_rows" by (simp add: all_finite_def daily_rows_def)
  have h2: "1 \<le> length daily_rows" by (simp add: daily_rows_def)
  have l: "length daily_rows - 1 = 2" by (simp add: daily_rows_def)
  have t: "tl (map fst daily_rows) = [''1962-01-03'', ''1962-01-04'']"
    by (simp add: daily_rows_def)
  from diff_DGS10_length_index [OF h1 h2] show ?thesis
    unfolding l t using h1 h2 by (intro conjI) simp_all
qed

section \<open>The search loop and the printed best order\<close>

lemma fold_try_order:
  "fold (try_order fit) ps st =
     st\<lparr>AIC := AIC st @ map (\<lambda>p. the (fit p)) (fitted fit ps),
        AR_model := AR_model st @ map (\<lambda>p. [p]) (fitted fit ps)\<rparr>"
proof (induction ps arbitrary: st)
  case Nil
  show ?case by (simp add: fitted_def)
next
  case (Cons p ps)
  show ?case
  proof (cases "fit p")
    case None
    then show ?thesis using Cons.IH [of st] by (simp add: try_order_def fitted_def)
  next
    case (Some a)
    then show ?thesis
      using Cons.IH [of "st\<lparr>AIC := AIC st @ [a], AR_model := AR_model st @ [[p]]\<rparr>"]
      by (simp add: try_order_def fitted_def)
  qed
qed

lemma AIC_grid_search:
  "AIC (grid_search fit) = map (\<lambda>p. the (fit p)) (fitted fit p_range)"
  unfolding grid_search_def fold_try_order by simp

lemma AR_model_grid_search:
  "AR_model (grid_search fit) = map (\<lambda>p. [p]) (fitted fit p_range)"
  unfolding grid_search_def fold_try_order by simp

lemma fitted_set: "set (fitted fit p_range) = {p. p < 25 \<and> fit p \<noteq> None}"
  unfolding fitted_def p_range_def set_filter set_upt by auto

lemma fitted_sorted: "sorted_wrt (<) (fitted fit p_range)"
  unfolding fitted_def p_range_def by (rule sorted_wrt_filter) (rule sorted_wrt_upt)

lemma py_min_fold: "fold (\<lambda>y m. if y < m then y else m) ys (x::'a::linorder) = Min (set (x # ys))"
proof -
  have "(\<lambda>y m. if y < m then y else m) = (min :: 'a \<Rightarrow> 'a \<Rightarrow> 'a)"
    by (auto simp: fun_eq_iff min_def)
  then show ?thesis by (simp only: Min.set_eq_fold)
qed

lemma py_min_Min: "xs \<noteq> [] \<Longrightarrow> py_min xs = Inr (Min (set xs))"
  by (cases xs) (simp_all add: py_min_def py_min_fold del: set_simps)

lemma py_index_Inr:
  "py_index xs v = Inr i \<longleftrightarrow> i < length xs \<and> xs ! i = v \<and> (\<forall>j<i. xs ! j \<noteq> v)"
proof (induction xs arbitrary: i)
  case Nil
  show ?case by simp
next
  case (Cons x xs)
  show ?case
  proof (cases "x = v")
    case True
    then show ?thesis by (cases i) auto
  next
    case False
    show ?thesis
    proof (cases i)
      case 0
      with False show ?thesis by (simp split: sum.splits)
    next
      case (Suc k)
      have "py_index (x # xs) v = Inr (Suc k) \<longleftrightarrow> py_index xs v = Inr k"
        using False by (simp split: sum.splits)
      also have "\<dots> \<longleftrightarrow> k < length xs \<and> xs ! k = v \<and> (\<forall>j<k. xs ! j \<noteq> v)"
        by (rule Cons.IH)
      also have "\<dots> \<longleftrightarrow> Suc k < length (x # xs) \<and> (x # xs) ! Suc k = v \<and> (\<forall>j<Suc k. (x # xs) ! j \<noteq> v)"
        using False by (auto simp: less_Suc_eq_0_disj)
      finally show ?thesis unfolding Suc .
    qed
  qed
qed

lemma py_index_mem: "v \<in> set xs \<Longrightarrow> \<exists>i. py_index xs v = Inr i"
  by (induction xs) (auto split: sum.splits)

lemma smallest_AIC_position:
  fixes fit :: "nat \<Rightarrow> ('a::linorder) option"
  assumes ne: "fitted fit p_range \<noteq> []"
  defines "ps \<equiv> fitted fit p_range"
  defines "m \<equiv> Min (set (map (\<lambda>p. the (fit p)) ps))"
  shows "\<exists>i<length ps. smallest_AIC (grid_search fit) = Inr (m, ps ! i)
           \<and> the (fit (ps ! i)) = m \<and> (\<forall>j<i. the (fit (ps ! j)) \<noteq> m)"
proof -
  let ?A = "map (\<lambda>p. the (fit p)) ps"
  have A: "AIC (grid_search fit) = ?A"
    unfolding ps_def by (rule AIC_grid_search)
  have R: "AR_model (grid_search fit) = map (\<lambda>p. [p]) ps"
    unfolding ps_def by (rule AR_model_grid_search)
  have Ane: "?A \<noteq> []" using ne by (simp add: ps_def)
  have pm: "py_min ?A = Inr m"
    unfolding m_def by (rule py_min_Min [OF Ane])
  have "m \<in> set ?A"
    unfolding m_def using Ane by (intro Min_in) (simp_all del: set_map)
  from py_index_mem [OF this] obtain i where i: "py_index ?A m = Inr i" ..
  have found: "i < length ?A \<and> ?A ! i = m \<and> (\<forall>j<i. ?A ! j \<noteq> m)"
    using i unfolding py_index_Inr .
  have il: "i < length ps" using found by simp
  have im: "?A ! i = m" using found by (rule conjunct1 [OF conjunct2])
  have first: "\<forall>j<i. ?A ! j \<noteq> m" using found by (rule conjunct2 [OF conjunct2])
  have g1: "py_getitem (map (\<lambda>p. [p]) ps) i = Inr [ps ! i]"
    using il by (simp add: py_getitem_def)
  have g2: "py_getitem [ps ! i] 0 = Inr (ps ! i)"
    by (simp add: py_getitem_def)
  have res: "smallest_AIC (grid_search fit) = Inr (m, ps ! i)"
    by (simp only: smallest_AIC_def A R pm i g1 g2 sum.case)
  have at: "the (fit (ps ! i)) = m"
    using im il by (simp only: nth_map)
  have before: "\<forall>j<i. the (fit (ps ! j)) \<noteq> m"
  proof (intro allI impI)
    fix j assume ji: "j < i"
    then have "j < length ps" using il by simp
    then have "?A ! j = the (fit (ps ! j))" by (simp only: nth_map)
    moreover have "?A ! j \<noteq> m" using first ji by blast
    ultimately show "the (fit (ps ! j)) \<noteq> m" by simp
  qed
  show ?thesis
    by (intro exI [of _ i] conjI il res at before)
qed

lemma smallest_AIC_char:
  fixes fit :: "nat \<Rightarrow> ('a::linorder) option"
  assumes "smallest_AIC (grid_search fit) = Inr (m, k)"
  shows "k < 25" and "fit k = Some m"
    and "\<forall>p<25. \<forall>a. fit p = Some a \<longrightarrow> m \<le> a"
    and "\<forall>p<k. fit p \<noteq> Some m"
proof -
  define ps where "ps = fitted fit p_range"
  have ne: "fitted fit p_range \<noteq> []"
  proof
    assume "fitted fit p_range = []"
    then have "AIC (grid_search fit) = []" by (simp add: AIC_grid_search)
    then have "smallest_AIC (grid_search fit) = Inl ValueError"
      by (simp add: smallest_AIC_def py_min_def)
    with assms show False by simp
  qed
  from smallest_AIC_position [OF ne] obtain i where
    il: "i < length ps"
    and res: "smallest_AIC (grid_search fit) = Inr (Min (set (map (\<lambda>p. the (fit p)) ps)), ps ! i)"
    and at: "the (fit (ps ! i)) = Min (set (map (\<lambda>p. the (fit p)) ps))"
    and first: "\<forall>j<i. the (fit (ps ! j)) \<noteq> Min (set (map (\<lambda>p. the (fit p)) ps))"
    unfolding ps_def by blast
  from res assms have m: "m = Min (set (map (\<lambda>p. the (fit p)) ps))" and k: "k = ps ! i"
    by simp_all
  have mem: "\<And>p. p \<in> set ps \<longleftrightarrow> p < 25 \<and> fit p \<noteq> None"
    unfolding ps_def fitted_set by simp
  have kin: "k \<in> set ps" using il k by simp
  show "k < 25" using kin mem by blast
  show "fit k = Some m"
  proof -
    have "fit k \<noteq> None" using kin mem by blast
    then obtain a where a: "fit k = Some a" by blast
    have "the (fit k) = m" using at unfolding k m .
    with a show ?thesis by simp
  qed
  show "\<forall>p<25. \<forall>a. fit p = Some a \<longrightarrow> m \<le> a"
  proof (intro allI impI)
    fix p a assume "p < 25" and pa: "fit p = Some a"
    then have "p \<in> set ps" using mem by simp
    then have "a \<in> set (map (\<lambda>p. the (fit p)) ps)" using pa by force
    then show "m \<le> a" unfolding m by (intro Min_le) simp_all
  qed
  show "\<forall>p<k. fit p \<noteq> Some m"
  proof (intro allI impI notI)
    fix p assume pk: "p < k" and pm: "fit p = Some m"
    from pk \<open>k < 25\<close> pm have "p \<in> set ps" using mem by simp
    then obtain j where jl: "j < length ps" and pj: "ps ! j = p"
      by (auto simp: in_set_conv_nth)
    have srt: "sorted_wrt (<) ps" unfolding ps_def by (rule fitted_sorted)
    have "j < i"
    proof (rule ccontr)
      assume "\<not> j < i"
      then have "i = j \<or> i < j" by auto
      then have "ps ! i \<le> ps ! j"
        using sorted_wrt_nth_less [OF srt, of i j] jl by auto
      with pk k pj show False by simp
    qed
    with first have "the (fit (ps ! j)) \<noteq> m" unfolding m by blast
    with pj pm show False by simp
  qed
qed

lemma smallest_AIC_returns:
  fixes fit :: "nat \<Rightarrow> ('a::linorder) option"
  assumes "AIC (grid_search fit) \<noteq> []"
  shows "\<exists>m k. smallest_AIC (grid_search fit) = Inr (m, k)"
proof -
  from assms have "fitted fit p_range \<noteq> []" by (simp add: AIC_grid_search)
  from smallest_AIC_position [OF this] show ?thesis by blast
qed

lemma fitted_nonempty:
  "fitted fit p_range \<noteq> [] \<longleftrightarrow> (\<exists>p<25. fit p \<noteq> None)"
proof -
  have "fitted fit p_range \<noteq> [] \<longleftrightarrow> set (fitted fit p_range) \<noteq> {}" by simp
  also have "\<dots> \<longleftrightarrow> (\<exists>p<25. fit p \<noteq> None)" unfolding fitted_set by blast
  finally show ?thesis .
qed

lemma smallest_AIC_is_Min:
  fixes fit :: "nat \<Rightarrow> ('a::linorder) option"
  assumes "smallest_AIC (grid_search fit) = Inr (m, k)"
  shows "m = Min (set (AIC (grid_search fit)))"
proof (cases "AIC (grid_search fit) = []")
  case True
  then have "smallest_AIC (grid_search fit) = Inl ValueError"
    by (simp add: smallest_AIC_def py_min_def)
  with assms show ?thesis by simp
next
  case False
  from py_min_Min [OF False] assms show ?thesis
    unfolding smallest_AIC_def by (simp split: sum.splits)
qed

text \<open>
  C4. After the loop over the orders 0..24, when at least one fit succeeded, the cell
  prints a pair \<open>(m, k)\<close>: \<open>m\<close> is the minimum of the recorded criteria, and \<open>k\<close> is the
  smallest candidate order whose recorded criterion equals \<open>m\<close>.
\<close>

theorem smallest_AIC_least_order:
  fixes fit :: "nat \<Rightarrow> ('a::linorder) option"
  assumes "\<exists>p<25. fit p \<noteq> None"
  shows "\<exists>m k. smallest_AIC (grid_search fit) = Inr (m, k)
           \<and> m = Min (set (AIC (grid_search fit)))
           \<and> k < 25 \<and> fit k = Some m
           \<and> (\<forall>p<25. \<forall>a. fit p = Some a \<longrightarrow> m \<le> a)
           \<and> (\<forall>p<k. fit p \<noteq> Some m)"
proof -
  from assms have "fitted fit p_range \<noteq> []" unfolding fitted_nonempty .
  then have "AIC (grid_search fit) \<noteq> []" by (simp add: AIC_grid_search)
  from smallest_AIC_returns [OF this] obtain m k where
    r: "smallest_AIC (grid_search fit) = Inr (m, k)" by blast
  show ?thesis
    by (intro exI [of _ m] exI [of _ k] conjI r smallest_AIC_is_Min [OF r]
        smallest_AIC_char [OF r])
qed

lemma smallest_AIC_fit_ar1: "smallest_AIC (grid_search fit_ar1) = Inr (0, 1)"
  by code_simp

theorem smallest_AIC_least_order_witness:
  "fit_ar1 0 \<noteq> None \<and> smallest_AIC (grid_search fit_ar1) = Inr (0, 1)
   \<and> fit_ar1 1 = Some 0 \<and> fit_ar1 0 = Some 1 \<and> (0::real) \<le> 1 \<and> fit_ar1 0 \<noteq> Some 0"
proof -
  have h: "\<exists>p<25. fit_ar1 p \<noteq> None"
    by (rule exI [of _ 0]) (simp add: fit_ar1_def)
  from smallest_AIC_least_order [OF h] obtain m k where
    r: "smallest_AIC (grid_search fit_ar1) = Inr (m, k)"
    and at: "fit_ar1 k = Some m"
    and le: "\<forall>p<25. \<forall>a. fit_ar1 p = Some a \<longrightarrow> m \<le> a"
    and first: "\<forall>p<k. fit_ar1 p \<noteq> Some m"
    by blast
  from r have m: "m = 0" and k: "k = 1" unfolding smallest_AIC_fit_ar1 by simp_all
  have f0: "fit_ar1 0 = Some 1" by (simp add: fit_ar1_def)
  have "(0::real) \<le> 1" using le f0 unfolding m by force
  moreover have "fit_ar1 0 \<noteq> Some 0" using first unfolding m k by simp
  moreover have "fit_ar1 1 = Some 0" using at unfolding m k .
  moreover have "fit_ar1 0 \<noteq> None" using f0 by simp
  ultimately show ?thesis using f0 smallest_AIC_fit_ar1 by (intro conjI)
qed

text \<open>
  C6. An order whose fit raises leaves both lists as they are, and the loop goes on with
  the next order: no entry of \<open>AR_model\<close> names such an order, every order whose fit
  succeeded has its entry, the two lists have the same length, and their entries at the
  same position belong to the same order.
\<close>

theorem grid_search_skips_failures:
  fixes fit :: "nat \<Rightarrow> 'a option"
  shows "(\<forall>p st. fit p = None \<longrightarrow> try_order fit p st = st)
     \<and> (\<forall>p. fit p = None \<longrightarrow> [p] \<notin> set (AR_model (grid_search fit)))
     \<and> (\<forall>p<25. \<forall>a. fit p = Some a \<longrightarrow> [p] \<in> set (AR_model (grid_search fit)))
     \<and> length (AIC (grid_search fit)) = length (AR_model (grid_search fit))
     \<and> (\<forall>i<length (AIC (grid_search fit)). \<exists>p<25.
           AR_model (grid_search fit) ! i = [p] \<and> fit p = Some (AIC (grid_search fit) ! i))"
proof -
  define ps where "ps = fitted fit p_range"
  have A: "AIC (grid_search fit) = map (\<lambda>p. the (fit p)) ps"
    unfolding ps_def by (rule AIC_grid_search)
  have R: "AR_model (grid_search fit) = map (\<lambda>p. [p]) ps"
    unfolding ps_def by (rule AR_model_grid_search)
  have mem: "\<And>p. p \<in> set ps \<longleftrightarrow> p < 25 \<and> fit p \<noteq> None"
    unfolding ps_def fitted_set by simp
  have entry: "\<And>p. [p] \<in> set (map (\<lambda>p. [p]) ps) \<longleftrightarrow> p \<in> set ps" by auto
  have c1: "\<forall>p st. fit p = None \<longrightarrow> try_order fit p st = st"
    by (simp add: try_order_def)
  have c2: "\<forall>p. fit p = None \<longrightarrow> [p] \<notin> set (AR_model (grid_search fit))"
    unfolding R entry mem by simp
  have c3: "\<forall>p<25. \<forall>a. fit p = Some a \<longrightarrow> [p] \<in> set (AR_model (grid_search fit))"
    unfolding R entry mem by simp
  have c4: "length (AIC (grid_search fit)) = length (AR_model (grid_search fit))"
    unfolding A R by simp
  have c5: "\<forall>i<length (AIC (grid_search fit)). \<exists>p<25.
           AR_model (grid_search fit) ! i = [p] \<and> fit p = Some (AIC (grid_search fit) ! i)"
  proof (intro allI impI)
    fix i assume "i < length (AIC (grid_search fit))"
    then have i: "i < length ps" unfolding A by simp
    then have "ps ! i \<in> set ps" by simp
    then have lt: "ps ! i < 25" and ok: "fit (ps ! i) \<noteq> None" unfolding mem by simp_all
    from ok have "fit (ps ! i) = Some (the (fit (ps ! i)))" by simp
    then have "AR_model (grid_search fit) ! i = [ps ! i]
        \<and> fit (ps ! i) = Some (AIC (grid_search fit) ! i)"
      unfolding A R using i by simp
    with lt show "\<exists>p<25. AR_model (grid_search fit) ! i = [p]
        \<and> fit p = Some (AIC (grid_search fit) ! i)" by blast
  qed
  show ?thesis by (intro conjI c1 c2 c3 c4 c5)
qed

theorem grid_search_skips_failures_witness:
  "fit_ar1 20 = None
   \<and> try_order fit_ar1 20 \<lparr>AIC = [0], AR_model = [[7]]\<rparr> = \<lparr>AIC = [0], AR_model = [[7]]\<rparr>
   \<and> [20] \<notin> set (AR_model (grid_search fit_ar1))
   \<and> fit_ar1 1 = Some 0
   \<and> [1] \<in> set (AR_model (grid_search fit_ar1))
   \<and> length (AIC (grid_search fit_ar1)) = length (AR_model (grid_search fit_ar1))"
proof -
  have none: "fit_ar1 20 = None" by (simp add: fit_ar1_def)
  have some: "fit_ar1 1 = Some 0" by (simp add: fit_ar1_def)
  note t = grid_search_skips_failures [of fit_ar1]
  from t none have "try_order fit_ar1 20 \<lparr>AIC = [0], AR_model = [[7]]\<rparr>
      = \<lparr>AIC = [0], AR_model = [[7]]\<rparr>" by blast
  moreover from t none have "[20] \<notin> set (AR_model (grid_search fit_ar1))" by blast
  moreover from t some have "[1] \<in> set (AR_model (grid_search fit_ar1))" by force
  moreover from t
  have "length (AIC (grid_search fit_ar1)) = length (AR_model (grid_search fit_ar1))"
    by blast
  ultimately show ?thesis using none some by (intro conjI)
qed

section \<open>The order of the model that is fitted after the search\<close>

text \<open>
  C2. The claim: the model fitted after each search has the order the search reported,
  as the comment of the two cells says (\<open># Let's fit this model\<close>). For a search in
  which order 1 has the smallest criterion the search reports order 1, and the cells
  fit the orders 0 (monthly) and 2 (weekly) all the same: the order is a literal of
  the cell, not the result of the search.
\<close>

theorem fit_order_ignores_search:
  "smallest_AIC (grid_search fit_ar1) = Inr (0, 1)
   \<and> monthly_fit_order = 0 \<and> weekly_fit_order = 2
   \<and> monthly_fit_order \<noteq> 1 \<and> weekly_fit_order \<noteq> 1"
  by (simp add: smallest_AIC_fit_ar1 monthly_fit_order_def weekly_fit_order_def)

section \<open>The filtered table\<close>


lemma column_pos_mem: "c \<in> set cols \<Longrightarrow> \<exists>j. column_pos c cols = Some j"
  by (induction cols) auto






section \<open>The bars of the resampling\<close>

lemma ohlc_open_Inr: "ohlc_open xs = Inr v \<longleftrightarrow> xs \<noteq> [] \<and> v = hd xs"
  by (cases xs) (auto simp: ohlc_open_def)

lemma ohlc_close_Inr: "ohlc_close xs = Inr v \<longleftrightarrow> xs \<noteq> [] \<and> v = last xs"
  by (auto simp: ohlc_close_def)

lemma ohlc_high_Inr: "ohlc_high xs = Inr v \<longleftrightarrow> xs \<noteq> [] \<and> v = Max (set xs)"
proof (cases xs)
  case Nil
  then show ?thesis by (simp add: ohlc_high_def)
next
  case (Cons x ys)
  have "fold max ys x = Max (set (x # ys))" by (simp only: Max.set_eq_fold)
  then show ?thesis unfolding Cons ohlc_high_def by auto
qed

lemma ohlc_low_Inr: "ohlc_low xs = Inr v \<longleftrightarrow> xs \<noteq> [] \<and> v = Min (set xs)"
proof (cases xs)
  case Nil
  then show ?thesis by (simp add: ohlc_low_def)
next
  case (Cons x ys)
  have "fold min ys x = Min (set (x # ys))" by (simp only: Min.set_eq_fold)
  then show ?thesis unfolding Cons ohlc_low_def by auto
qed

lemma apply_agg_Cons_Inr:
  "apply_agg f ((k, xs) # g) = Inr vs \<longleftrightarrow>
     (\<exists>v vs'. f xs = Inr v \<and> apply_agg f g = Inr vs' \<and> vs = (k, v) # vs')"
  by (auto split: sum.splits)

lemma ohlc_rows:
  assumes "apply_agg ohlc_open g = Inr os" and "apply_agg ohlc_high g = Inr hs"
    and "apply_agg ohlc_low g = Inr ls" and "apply_agg ohlc_close g = Inr cs"
  shows "list_all2 (\<lambda>(k, xs) (k', b). k' = k \<and> bar_of xs b) g
           (map (\<lambda>((k, vo), (_, vh), (_, vl), (_, vc)).
                    (k, \<lparr>opn = vo, high = vh, low = vl, close = vc\<rparr>))
              (zip os (zip hs (zip ls cs))))"
  using assms
proof (induction g arbitrary: os hs ls cs)
  case Nil
  then show ?case by simp
next
  case (Cons a g)
  obtain k xs where a: "a = (k, xs)" by (cases a)
  from Cons.prems(1) obtain vo os' where
    o: "ohlc_open xs = Inr vo" "apply_agg ohlc_open g = Inr os'" "os = (k, vo) # os'"
    unfolding a apply_agg_Cons_Inr by blast
  from Cons.prems(2) obtain vh hs' where
    h: "ohlc_high xs = Inr vh" "apply_agg ohlc_high g = Inr hs'" "hs = (k, vh) # hs'"
    unfolding a apply_agg_Cons_Inr by blast
  from Cons.prems(3) obtain vl ls' where
    l: "ohlc_low xs = Inr vl" "apply_agg ohlc_low g = Inr ls'" "ls = (k, vl) # ls'"
    unfolding a apply_agg_Cons_Inr by blast
  from Cons.prems(4) obtain vc cs' where
    c: "ohlc_close xs = Inr vc" "apply_agg ohlc_close g = Inr cs'" "cs = (k, vc) # cs'"
    unfolding a apply_agg_Cons_Inr by blast
  have b: "bar_of xs \<lparr>opn = vo, high = vh, low = vl, close = vc\<rparr>"
    using o(1) h(1) l(1) c(1)
    unfolding ohlc_open_Inr ohlc_high_Inr ohlc_low_Inr ohlc_close_Inr bar_of_def by simp
  from Cons.IH [OF o(2) h(2) l(2) c(2)] b
  show ?case unfolding a o(3) h(3) l(3) c(3) by simp
qed

lemma resample_plot_rows:
  assumes "resample_plot data h = Inr df"
  shows "list_all2 (\<lambda>(k, xs) (k', b). k' = k \<and> bar_of xs b) (resample h data) df"
proof -
  from assms obtain os hs ls cs where
    parts: "apply_agg ohlc_open (resample h data) = Inr os"
      "apply_agg ohlc_high (resample h data) = Inr hs"
      "apply_agg ohlc_low (resample h data) = Inr ls"
      "apply_agg ohlc_close (resample h data) = Inr cs"
    and df: "df = map (\<lambda>((k, vo), (_, vh), (_, vl), (_, vc)).
                    (k, \<lparr>opn = vo, high = vh, low = vl, close = vc\<rparr>))
              (zip os (zip hs (zip ls cs)))"
    unfolding resample_plot_def Let_def by (auto split: sum.splits)
  show ?thesis unfolding df by (rule ohlc_rows [OF parts])
qed

lemma resample_groups:
  "(k, xs) \<in> set (resample h data) \<Longrightarrow> xs = sub_period h k data"
  unfolding resample_def Let_def by (auto split: if_splits)

lemma resample_plot_bar:
  assumes "resample_plot data h = Inr df" and "(k, b) \<in> set df"
  shows "bar_of (sub_period h k data) b"
proof -
  from resample_plot_rows [OF assms(1)] assms(2)
  obtain g where "g \<in> set (resample h data)" and "(\<lambda>(k, xs) (k', b). k' = k \<and> bar_of xs b) g (k, b)"
    unfolding list_all2_conv_all_nth in_set_conv_nth by metis
  then obtain xs where "(k, xs) \<in> set (resample h data)" and "bar_of xs b"
    by (cases g) auto
  with resample_groups show ?thesis by blast
qed









lemma sub_period_week1:
  "sub_period W (- 417) daily_days = [4.06, 4.03, 3.99, 4.02]"
  by (simp add: sub_period_def daily_days_def period_of_def week_of_def)

lemma sub_period_week2:
  "sub_period W (- 416) daily_days = [4.03, 4.05, 4.07]"
  by (simp add: sub_period_def daily_days_def period_of_def week_of_def)

lemma resample_daily_days:
  "resample W daily_days
     = [(- 417, [4.06, 4.03, 3.99, 4.02]), (- 416, [4.03, 4.05, 4.07])]"
proof -
  have ks: "map (\<lambda>(d, v). period_of W d) daily_days
      = [- 417, - 417, - 417, - 417, - 416, - 416, - 416]"
    by (simp add: daily_days_def period_of_def week_of_def)
  have range: "[Min (set [- 417, - 417, - 417, - 417, - 416, - 416, - 416 :: int])..
                Max (set [- 417, - 417, - 417, - 417, - 416, - 416, - 416])] = [- 417, - 416]"
    by (simp add: upto.simps)
  have ne: "daily_days \<noteq> []" by (simp add: daily_days_def)
  show ?thesis
    unfolding resample_def Let_def ks range using ne
    by (simp add: sub_period_week1 sub_period_week2)
qed

lemma resample_plot_daily_days:
  "resample_plot daily_days W
     = Inr [(- 417, \<lparr>opn = 4.06, high = 4.06, low = 3.99, close = 4.02\<rparr>),
            (- 416, \<lparr>opn = 4.03, high = 4.07, low = 4.03, close = 4.07\<rparr>)]"
  unfolding resample_plot_def resample_daily_days Let_def
  by (simp add: ohlc_open_def ohlc_high_def ohlc_low_def ohlc_close_def)





text \<open>
  C10. Every bar that \<open>resample_plot\<close> returns satisfies \<open>low \<le> open \<le> high\<close> and
  \<open>low \<le> close \<le> high\<close>.
\<close>

theorem resample_plot_invariant:
  assumes "resample_plot data h = Inr df" and "(k, b) \<in> set df"
  shows "low b \<le> opn b \<and> opn b \<le> high b \<and> low b \<le> close b \<and> close b \<le> high b"
proof -
  let ?xs = "sub_period h k data"
  from resample_plot_bar [OF assms] have ne: "?xs \<noteq> []"
    and o: "opn b = hd ?xs" and hi: "high b = Max (set ?xs)"
    and lo: "low b = Min (set ?xs)" and c: "close b = last ?xs"
    unfolding bar_of_def by simp_all
  have "hd ?xs \<in> set ?xs" and "last ?xs \<in> set ?xs" using ne by simp_all
  then show ?thesis unfolding o hi lo c by simp
qed

theorem resample_plot_invariant_witness:
  "resample_plot daily_days W
     = Inr [(- 417, \<lparr>opn = 4.06, high = 4.06, low = 3.99, close = 4.02\<rparr>),
            (- 416, \<lparr>opn = 4.03, high = 4.07, low = 4.03, close = 4.07\<rparr>)]
   \<and> (3.99::real) \<le> 4.06 \<and> (4.06::real) \<le> 4.06 \<and> (3.99::real) \<le> 4.02 \<and> (4.02::real) \<le> 4.06"
proof -
  have row: "(- 417, \<lparr>opn = 4.06, high = 4.06, low = 3.99, close = 4.02\<rparr>)
      \<in> set [(- 417, \<lparr>opn = 4.06, high = 4.06, low = 3.99, close = 4.02\<rparr>),
              (- 416, \<lparr>opn = 4.03, high = 4.07, low = 4.03, close = (4.07::real)\<rparr>)]"
    by simp
  from resample_plot_invariant [OF resample_plot_daily_days row]
  have "low \<lparr>opn = 4.06, high = 4.06, low = 3.99, close = (4.02::real)\<rparr>
          \<le> opn \<lparr>opn = 4.06, high = 4.06, low = 3.99, close = (4.02::real)\<rparr>
      \<and> opn \<lparr>opn = 4.06, high = 4.06, low = 3.99, close = (4.02::real)\<rparr>
          \<le> high \<lparr>opn = 4.06, high = 4.06, low = 3.99, close = (4.02::real)\<rparr>
      \<and> low \<lparr>opn = 4.06, high = 4.06, low = 3.99, close = (4.02::real)\<rparr>
          \<le> close \<lparr>opn = 4.06, high = 4.06, low = 3.99, close = (4.02::real)\<rparr>
      \<and> close \<lparr>opn = 4.06, high = 4.06, low = 3.99, close = (4.02::real)\<rparr>
          \<le> high \<lparr>opn = 4.06, high = 4.06, low = 3.99, close = (4.02::real)\<rparr>" .
  then have "(3.99::real) \<le> 4.06 \<and> (4.06::real) \<le> 4.06 \<and> (3.99::real) \<le> 4.02
      \<and> (4.02::real) \<le> 4.06"
    by (simp only: bar.simps)
  with resample_plot_daily_days show ?thesis by (rule conjI)
qed

section \<open>The coefficients handed to the root finder\<close>

text \<open>
  C3. The claim: the sequence passed to \<open>polyroots\<close> is \<open>(1, -\<phi>\<^sub>1, -\<phi>\<^sub>2) = (1, 0.1, -0.04)\<close>.
  The cell passes \<open>(1, -0.1, 0.04)\<close>, which is \<open>(1, \<phi>\<^sub>1, \<phi>\<^sub>2)\<close>: the two signs that
  the polynomial \<open>1 - \<phi>\<^sub>1 z - \<phi>\<^sub>2 z\<^sup>2\<close> of the notebook's text asks for are missing. The
  polynomial passed is positive at \<open>z = 10\<close>, where the characteristic polynomial is
  negative.
\<close>

theorem polyroots_arg_signs:
  "polyroots_arg = [1, phi1_hat, phi2_hat]
   \<and> characteristic_coeffs phi1_hat phi2_hat = [1, 0.1, - 0.04]
   \<and> polyroots_arg \<noteq> characteristic_coeffs phi1_hat phi2_hat
   \<and> polyval polyroots_arg 10 = 4
   \<and> polyval (characteristic_coeffs phi1_hat phi2_hat) 10 = - 2"
  by (simp add: polyroots_arg_def characteristic_coeffs_def phi1_hat_def phi2_hat_def)

section \<open>The calls of the unit-root test\<close>








end
